theory Spec2Isabelle
  imports Main "HOL-Library.Word"
begin

section \<open>Shared-memory object model of \<open>wasm-wasi-kit/src/common/sharedObject.ts\<close>\<close>

text \<open>
  The development embeds the layout compiler \<open>Record.Type\<close>, the arena wrapper
  \<open>MemoryImpl\<close>, the wire value \<open>MemoryLocation\<close> and the two synchronisation objects
  \<open>Lock\<close> and \<open>Signal\<close>. Addresses and sizes carry the source's types \<open>ptr\<close>, \<open>size\<close> and
  \<open>u32\<close>: they are non-negative integers, and the source adds them as JavaScript numbers,
  which do not wrap at 32 bits, so they are natural numbers here. The cell of a \<open>Lock\<close> or a
  \<open>Signal\<close> is an element of an \<open>Int32Array\<close> and is a 32-bit word with wrap-around.
\<close>

subsection \<open>Errors\<close>

text \<open>Every \<open>throw\<close> of the source is a value of this type.\<close>

datatype error =
    AllocationFailed          \<comment> \<open>\<open>new Error('Allocation failed')\<close>\<close>
  | OutOfBounds               \<comment> \<open>\<open>new MemoryError('Memory access is out of bounds. ...')\<close>\<close>
  | LocationMismatch          \<comment> \<open>\<open>new MemoryError('Memory location does not match')\<close>\<close>
  | DuplicateProperty string  \<comment> \<open>\<open>new ComponentModelTrap('Duplicate property ' + name)\<close>\<close>
  | Trap                      \<comment> \<open>an exception raised inside an export of the module\<close>

subsection \<open>Alignment and property types\<close>

text \<open>
  Modelled from the spec: the enumeration \<open>Alignment\<close> and the helper \<open>Alignment.align\<close> are
  imported from the package \<open>@vscode/wasm-component-model\<close> and are not part of the file.
  The spec gives the alignments \<open>{1,2,4,8}\<close>, names the smallest one byte alignment
  (\<open>Alignment.byte\<close> in the source) and says that the running offset is rounded up to the
  field's alignment.
\<close>

datatype Alignment = Alignment_byte | Alignment_halfWord | Alignment_word | Alignment_doubleWord

fun Alignment_value :: "Alignment \<Rightarrow> nat" where
  "Alignment_value Alignment_byte = 1"
| "Alignment_value Alignment_halfWord = 2"
| "Alignment_value Alignment_word = 4"
| "Alignment_value Alignment_doubleWord = 8"

text \<open>
  Modelled from the spec: \<open>Alignment.align(ptr, alignment)\<close> rounds \<open>ptr\<close> up to the next
  multiple of \<open>alignment\<close>.
\<close>

definition Alignment_align :: "nat \<Rightarrow> Alignment \<Rightarrow> nat" where
  "Alignment_align p a = ((p + Alignment_value a - 1) div Alignment_value a) * Alignment_value a"

text \<open>\<open>Math.max\<close> on two members of the numeric enumeration.\<close>

definition Alignment_max :: "Alignment \<Rightarrow> Alignment \<Rightarrow> Alignment" where
  "Alignment_max a b = (if Alignment_value a < Alignment_value b then b else a)"

text \<open>
  \<open>BasePropertyType\<close>: the layout compiler reads only \<open>size\<close> and \<open>alignment\<close> of a
  property type, whether it is an \<open>ObjectType\<close> or a \<open>ValueType\<close>.
\<close>

record PropertyType =
  size' :: nat
  alignment :: Alignment

subsection \<open>\<open>Record.Type\<close>: the layout compiler\<close>

record FieldInfo =
  field_type :: PropertyType
  offset :: nat

type_synonym Properties = "(string \<times> PropertyType) list"

text \<open>
  \<open>fieldsMap\<close> is a JavaScript \<open>Map\<close>, which keeps its keys in insertion order; it is an
  association list here, a new key appended at the end. \<open>has\<close> is membership of the key.
\<close>

type_synonym fields_map = "(string \<times> FieldInfo) list"

definition has :: "fields_map \<Rightarrow> string \<Rightarrow> bool" where
  "has m name = (name \<in> fst ` set m)"

record Record_Type =
  type_alignment :: Alignment
  type_size :: nat
  type_fields :: fields_map

text \<open>
  The \<open>for (const [name, type] of properties)\<close> loop of the constructor, on the three
  variables \<open>alignment\<close>, \<open>size\<close> and \<open>fieldsMap\<close> it updates.
\<close>

fun Type_loop :: "Properties \<Rightarrow> Alignment \<Rightarrow> nat \<Rightarrow> fields_map \<Rightarrow> error + Record_Type" where
  "Type_loop [] al sz fm = Inr \<lparr>type_alignment = al, type_size = sz, type_fields = fm\<rparr>"
| "Type_loop ((name, ty) # properties) al sz fm =
     (if has fm name then Inl (DuplicateProperty name)
      else
        let al1 = Alignment_max al (alignment ty);
            sz1 = Alignment_align sz (alignment ty);
            info = \<lparr>field_type = ty, offset = sz1\<rparr>
        in Type_loop properties al1 (sz1 + size' ty) (fm @ [(name, info)]))"

text \<open>
  The constructor takes a rest parameter \<open>...props: Properties[]\<close>; its three cases
  (no argument, one argument, several arguments reduced with \<open>concat\<close>) all give the
  concatenation of the arguments.
\<close>

definition Type_new :: "Properties list \<Rightarrow> error + Record_Type" where
  "Type_new props = Type_loop (concat props) Alignment_byte 0 []"

definition getField :: "Record_Type \<Rightarrow> string \<Rightarrow> FieldInfo option" where
  "getField t name = map_of (type_fields t) name"

definition hasField :: "Record_Type \<Rightarrow> string \<Rightarrow> bool" where
  "hasField t name = has (type_fields t) name"

subsection \<open>Memory ranges\<close>

type_synonym byte = "8 word"

text \<open>
  \<open>BaseMemoryRange\<close> is the common part of \<open>MemoryRange\<close> and \<open>ReadonlyMemoryRange\<close>. The
  back-reference \<open>memory\<close> of a range is represented by the id of the arena it points to,
  which is all \<open>MemoryLocation.from\<close> reads of it. \<open>MemoryRange\<close> adds the fourth
  constructor argument, which only \<open>preAllocated\<close> sets.
\<close>

record BaseMemoryRange =
  range_memory :: string
  ptr :: nat
  range_size :: nat

record MemoryRange = BaseMemoryRange +
  isPreAllocated :: bool

type_synonym ReadonlyMemoryRange = BaseMemoryRange

subsection \<open>\<open>MemoryImpl\<close>: the arena\<close>

text \<open>
  \<open>SharedMemory.Exports\<close>: the allocator of the module. \<open>aligned_alloc\<close> runs inside the
  module on the linear memory, so it takes the bytes and returns them, possibly changed
  or grown, with the address it returns or the exception it raises. \<open>malloc\<close> and \<open>free\<close>
  are not called by the operations embedded here.
\<close>

record Exports =
  aligned_alloc :: "nat \<Rightarrow> nat \<Rightarrow> byte list \<Rightarrow> (error + nat) \<times> byte list"

text \<open>\<open>buffer\<close> is \<open>this.memory.buffer\<close>; its \<open>byteLength\<close> is the length of the list.\<close>

record MemoryImpl =
  mem_id :: string
  exports :: Exports
  buffer :: "byte list"

text \<open>The line \<open>alloc\<close> writes with \<open>RAL().console.error\<close>: align, size and buffer length.\<close>

datatype console_line = Alloc_failed nat nat nat

text \<open>
  Modelled from the spec: the classes \<open>MemoryRange\<close> and \<open>ReadonlyMemoryRange\<close> are imported
  from \<open>@vscode/wasm-component-model\<close>. The spec says that every range satisfies
  \<open>ptr + size \<le> buffer.byteLength\<close> and that a violation is rejected at construction, never
  silently clamped.
\<close>

definition MemoryRange_new :: "MemoryImpl \<Rightarrow> nat \<Rightarrow> nat \<Rightarrow> bool \<Rightarrow> error + MemoryRange" where
  "MemoryRange_new m p sz pre =
     (if p + sz > length (buffer m) then Inl OutOfBounds
      else Inr \<lparr>range_memory = mem_id m, ptr = p, range_size = sz, isPreAllocated = pre\<rparr>)"

definition ReadonlyMemoryRange_new :: "MemoryImpl \<Rightarrow> nat \<Rightarrow> nat \<Rightarrow> error + ReadonlyMemoryRange" where
  "ReadonlyMemoryRange_new m p sz =
     (if p + sz > length (buffer m) then Inl OutOfBounds
      else Inr \<lparr>range_memory = mem_id m, ptr = p, range_size = sz\<rparr>)"

text \<open>
  Modelled from the spec: \<open>result.getUint8View(0).fill(0)\<close>, the byte view of the whole
  range \<open>[ptr, ptr + size)\<close> with every element set to zero. Bytes outside the range keep
  their value and the buffer keeps its length.
\<close>

definition getUint8View_fill :: "byte list \<Rightarrow> nat \<Rightarrow> nat \<Rightarrow> byte \<Rightarrow> byte list" where
  "getUint8View_fill buf p sz v =
     map (\<lambda>i. if p \<le> i \<and> i < p + sz then v else buf ! i) [0..<length buf]"

text \<open>
  \<open>alloc\<close>: the body of the \<open>try\<close> is \<open>attempt\<close>; the \<open>catch\<close> logs one line with the
  length of the buffer as it is then, and raises the error again. The third component
  of the result is what the call wrote to the console.
\<close>

definition alloc ::
  "MemoryImpl \<Rightarrow> Alignment \<Rightarrow> nat \<Rightarrow> (error + MemoryRange) \<times> MemoryImpl \<times> console_line list" where
  "alloc m align sz =
     (let (r, buf) = aligned_alloc (exports m) (Alignment_value align) sz (buffer m);
          m1 = m\<lparr>buffer := buf\<rparr>;
          attempt =
            (case r of
               Inl e \<Rightarrow> Inl e
             | Inr p \<Rightarrow>
                 if p = 0 then Inl AllocationFailed
                 else (case MemoryRange_new m1 p sz False of
                         Inl e \<Rightarrow> Inl e
                       | Inr result \<Rightarrow>
                           Inr (result, m1\<lparr>buffer := getUint8View_fill (buffer m1) p sz 0\<rparr>)))
      in case attempt of
           Inr (result, m2) \<Rightarrow> (Inr result, m2, [])
         | Inl e \<Rightarrow>
             (Inl e, m1, [Alloc_failed (Alignment_value align) sz (length (buffer m1))]))"

definition preAllocated :: "MemoryImpl \<Rightarrow> nat \<Rightarrow> nat \<Rightarrow> error + MemoryRange" where
  "preAllocated m p sz =
     (if p + sz > length (buffer m) then Inl OutOfBounds
      else MemoryRange_new m p sz True)"

definition readonly :: "MemoryImpl \<Rightarrow> nat \<Rightarrow> nat \<Rightarrow> error + ReadonlyMemoryRange" where
  "readonly m p sz =
     (if p + sz > length (buffer m) then Inl OutOfBounds
      else ReadonlyMemoryRange_new m p sz)"

text \<open>
  \<open>%TypedArray%.prototype.copyWithin(target, start, end)\<close> of the language standard, for
  non-negative arguments: each argument is clamped to the length, \<open>count\<close> is the smaller
  of \<open>final - from\<close> and \<open>len - to\<close>, and when it is positive \<open>count\<close> bytes move from
  \<open>from\<close> to \<open>to\<close>, read before any is overwritten.
\<close>

definition Uint8Array_copyWithin :: "byte list \<Rightarrow> nat \<Rightarrow> nat \<Rightarrow> nat \<Rightarrow> byte list" where
  "Uint8Array_copyWithin raw target start end' =
     (let len = length raw;
          to = min target len;
          from = min start len;
          final = min end' len;
          count = min (final - from) (len - to)
      in take to raw @ take count (drop from raw) @ drop (to + count) raw)"

definition copyWithin :: "MemoryImpl \<Rightarrow> MemoryRange \<Rightarrow> ReadonlyMemoryRange \<Rightarrow> MemoryImpl" where
  "copyWithin m dest src =
     m\<lparr>buffer := Uint8Array_copyWithin (buffer m) (ptr dest) (ptr src) (ptr src + range_size src)\<rparr>"

subsection \<open>\<open>MemoryLocation\<close>\<close>

record MemoryLocation =
  loc_memory_id :: string
  loc_ptr :: nat
  loc_size :: nat

definition MemoryLocation_from :: "'a BaseMemoryRange_scheme \<Rightarrow> MemoryLocation" where
  "MemoryLocation_from memRange =
     \<lparr>loc_memory_id = range_memory memRange, loc_ptr = ptr memRange, loc_size = range_size memRange\<rparr>"

definition MemoryLocation_to :: "MemoryImpl \<Rightarrow> MemoryLocation \<Rightarrow> error + MemoryRange" where
  "MemoryLocation_to m location =
     (if mem_id m \<noteq> loc_memory_id location then Inl LocationMismatch
      else preAllocated m (loc_ptr location) (loc_size location))"

subsection \<open>The shared cell and the atomic operations\<close>

text \<open>
  A \<open>Lock\<close> and a \<open>Signal\<close> each hold \<open>memoryRange.getInt32View(0, 1)\<close>, an \<open>Int32Array\<close> of
  one element over shared memory. Every agent sees the same element, so it is passed
  explicitly: \<open>cell\<close> is the element at index 0, and \<open>waiters\<close> counts the agents that are
  suspended in \<open>Atomics.wait\<close> on it. The operations are those of the language standard.
\<close>

type_synonym i32 = "32 word"

record Int32Array1 =
  cell :: i32
  waiters :: nat

definition Atomics_load :: "Int32Array1 \<Rightarrow> i32" where
  "Atomics_load b = cell b"

definition Atomics_store :: "Int32Array1 \<Rightarrow> i32 \<Rightarrow> Int32Array1" where
  "Atomics_store b v = b\<lparr>cell := v\<rparr>"

text \<open>\<open>Atomics.add\<close> and \<open>Atomics.compareExchange\<close> return the old value and the new array.\<close>

definition Atomics_add :: "Int32Array1 \<Rightarrow> i32 \<Rightarrow> i32 \<times> Int32Array1" where
  "Atomics_add b v = (cell b, b\<lparr>cell := cell b + v\<rparr>)"

definition Atomics_compareExchange :: "Int32Array1 \<Rightarrow> i32 \<Rightarrow> i32 \<Rightarrow> i32 \<times> Int32Array1" where
  "Atomics_compareExchange b expected replacement =
     (cell b, if cell b = expected then b\<lparr>cell := replacement\<rparr> else b)"

text \<open>
  \<open>Atomics.notify(array, 0, count)\<close> wakes up to \<open>count\<close> suspended agents, all of them
  when \<open>count\<close> is \<open>undefined\<close> (here \<open>None\<close>).
\<close>

definition Atomics_notify :: "Int32Array1 \<Rightarrow> nat option \<Rightarrow> Int32Array1" where
  "Atomics_notify b count =
     b\<lparr>waiters := waiters b - (case count of None \<Rightarrow> waiters b | Some n \<Rightarrow> min n (waiters b))\<rparr>"

text \<open>
  \<open>Atomics.wait(array, 0, v)\<close> without a timeout returns \<open>not-equal\<close> at once when the cell
  differs from \<open>v\<close>; otherwise the agent is suspended and the call returns \<open>ok\<close> when
  another agent notifies it. \<open>notified\<close> says whether that happens; if it does not, the
  call never returns, which is \<open>None\<close>.
\<close>

datatype wait_result = Wait_ok | Wait_not_equal | Wait_timed_out

definition Atomics_wait :: "Int32Array1 \<Rightarrow> i32 \<Rightarrow> bool \<Rightarrow> wait_result option" where
  "Atomics_wait b v notified =
     (if cell b \<noteq> v then Some Wait_not_equal else if notified then Some Wait_ok else None)"

subsection \<open>\<open>Lock\<close>\<close>

text \<open>
  The agent-local part of a \<open>Lock\<close> is its counter \<open>lockCount\<close>; the buffer is the shared
  array. \<open>SharedObjectContext.Mode\<close> is the mode of the optional context argument.
\<close>

record Lock =
  lockCount :: nat

datatype Mode = Mode_new | Mode_existing

text \<open>
  The constructor: \<open>isMemory\<close> is \<open>SharedMemory.is(arg)\<close>, in which case the cell has just
  been allocated with \<open>Lock.alloc\<close>; \<open>b\<close> is the array over the range.
\<close>

definition Lock_new :: "bool \<Rightarrow> Mode option \<Rightarrow> Int32Array1 \<Rightarrow> Int32Array1 \<times> Lock" where
  "Lock_new isMemory context b =
     (if isMemory \<or> context = Some Mode_new then Atomics_store b 1 else b, \<lparr>lockCount = 0\<rparr>)"

text \<open>
  Other agents run between the atomic operations of \<open>acquire\<close>. One pass through the body
  of its \<open>while (true)\<close> loop meets a \<open>round\<close>: what the other agents do to the array before
  the load, between the load and the compare-and-swap, and before the wait, and whether
  one of them wakes this agent if it is suspended.
\<close>

record round =
  before_load :: "Int32Array1 \<Rightarrow> Int32Array1"
  before_cas :: "Int32Array1 \<Rightarrow> Int32Array1"
  before_wait :: "Int32Array1 \<Rightarrow> Int32Array1"
  notified :: bool

text \<open>A round in which no other agent does anything.\<close>

definition quiet :: round where
  "quiet = \<lparr>before_load = id, before_cas = id, before_wait = id, notified = False\<rparr>"

text \<open>
  The loop of \<open>acquire\<close>, one pass per round. \<open>None\<close> is a call that has not returned: the
  agent is suspended in \<open>Atomics.wait\<close> and nobody notifies it, or the rounds are used up.
  The compare-and-swap is evaluated only when \<open>value > 0\<close>, as \<open>&&\<close> does; the comparison is
  on the signed reading of the cell.
\<close>

fun acquire_loop :: "round list \<Rightarrow> Int32Array1 \<Rightarrow> Lock \<Rightarrow> (Int32Array1 \<times> Lock) option" where
  "acquire_loop [] b l = None"
| "acquire_loop (r # rs) b l =
     (let b1 = before_load r b;
          val = Atomics_load b1;
          b2 = before_cas r b1
      in if 0 <s val \<and> fst (Atomics_compareExchange b2 val (val - 1)) = val
         then Some (snd (Atomics_compareExchange b2 val (val - 1)), l\<lparr>lockCount := 1\<rparr>)
         else
           let b3 = (if 0 <s val then snd (Atomics_compareExchange b2 val (val - 1)) else b2);
               b4 = before_wait r b3
           in case Atomics_wait b4 val (notified r) of
                None \<Rightarrow> None
              | Some res \<Rightarrow> acquire_loop rs b4 l)"

definition acquire :: "round list \<Rightarrow> Int32Array1 \<Rightarrow> Lock \<Rightarrow> (Int32Array1 \<times> Lock) option" where
  "acquire rs b l =
     (if lockCount l > 0 then Some (b, l\<lparr>lockCount := lockCount l + 1\<rparr>)
      else acquire_loop rs b l)"

definition release :: "Int32Array1 \<Rightarrow> Lock \<Rightarrow> Int32Array1 \<times> Lock" where
  "release b l =
     (if lockCount l > 1 then (b, l\<lparr>lockCount := lockCount l - 1\<rparr>)
      else (Atomics_notify (snd (Atomics_add b 1)) (Some 1), l\<lparr>lockCount := 0\<rparr>))"

text \<open>
  What the other agents alone make of the array during a list of rounds in which this
  agent's compare-and-swap fails or is not attempted.
\<close>

fun others :: "round list \<Rightarrow> Int32Array1 \<Rightarrow> Int32Array1" where
  "others [] b = b"
| "others (r # rs) b = others rs (before_wait r (before_cas r (before_load r b)))"

text \<open>
  The array from which pass \<open>k\<close> of the loop loads, and the array on which its
  compare-and-swap then runs, when the passes before it did not acquire.
\<close>

definition at_load :: "round list \<Rightarrow> nat \<Rightarrow> Int32Array1 \<Rightarrow> Int32Array1" where
  "at_load rs k b = before_load (rs ! k) (others (take k rs) b)"

definition at_cas :: "round list \<Rightarrow> nat \<Rightarrow> Int32Array1 \<Rightarrow> Int32Array1" where
  "at_cas rs k b = before_cas (rs ! k) (at_load rs k b)"

subsection \<open>\<open>Signal\<close>\<close>

text \<open>A \<open>Signal\<close> has no agent-local state: it is the shared array.\<close>

definition Signal_new :: "bool \<Rightarrow> Mode option \<Rightarrow> Int32Array1 \<Rightarrow> Int32Array1" where
  "Signal_new isMemory context b =
     (if isMemory \<or> context = Some Mode_new then Atomics_store b 0 else b)"

definition isResolved :: "Int32Array1 \<Rightarrow> bool" where
  "isResolved b = (Atomics_load b = 1)"

definition resolve :: "Int32Array1 \<Rightarrow> nat option \<Rightarrow> Int32Array1" where
  "resolve b agentsToNotify = Atomics_notify (Atomics_store b 1) agentsToNotify"

subsection \<open>Auxiliary notions for the statements\<close>

text \<open>The end of a field's interval and the numeric alignment of its type.\<close>

definition field_end :: "FieldInfo \<Rightarrow> nat" where
  "field_end f = offset f + size' (field_type f)"

definition field_align :: "FieldInfo \<Rightarrow> nat" where
  "field_align f = Alignment_value (alignment (field_type f))"

text \<open>
  The invariant of the constructor's loop on its three variables: every recorded field
  is aligned and ends at or before the running offset, each field ends before the next
  one starts, and the running alignment is the largest one seen, starting from byte.
\<close>

definition layout_inv :: "Alignment \<Rightarrow> nat \<Rightarrow> fields_map \<Rightarrow> bool" where
  "layout_inv al sz fm =
     ((\<forall>f \<in> set (map snd fm). field_align f dvd offset f \<and> field_end f \<le> sz)
      \<and> sorted_wrt (\<lambda>f g. field_end f \<le> offset g) (map snd fm)
      \<and> Alignment_value al = Max (insert 1 (field_align ` set (map snd fm))))"

text \<open>
  An allocator export for the examples: it answers every request with the address \<open>p\<close>
  and leaves the memory as it is.
\<close>

definition alloc_at :: "nat \<Rightarrow> nat \<Rightarrow> nat \<Rightarrow> byte list \<Rightarrow> (error + nat) \<times> byte list" where
  "alloc_at p align sz buf = (Inr p, buf)"

section \<open>The layout computed by \<open>Record.Type\<close>\<close>

subsection \<open>Rounding up\<close>

lemma Alignment_value_pos: "0 < Alignment_value a"
  by (cases a) simp_all

lemma Alignment_align_dvd: "Alignment_value a dvd Alignment_align p a"
  by (simp add: Alignment_align_def)

lemma Alignment_align_ge: "p \<le> Alignment_align p a"
proof -
  let ?a = "Alignment_value a"
  have pos: "0 < ?a" by (rule Alignment_value_pos)
  have "p + ?a - 1 < ((p + ?a - 1) div ?a) * ?a + ?a"
    using pos by (metis div_mult_mod_eq mod_less_divisor nat_add_left_cancel_less)
  then show ?thesis using pos by (simp add: Alignment_align_def)
qed

lemma Alignment_align_less: "Alignment_align p a < p + Alignment_value a"
proof -
  let ?a = "Alignment_value a"
  have pos: "0 < ?a" by (rule Alignment_value_pos)
  have "((p + ?a - 1) div ?a) * ?a \<le> p + ?a - 1" by simp
  then show ?thesis unfolding Alignment_align_def using pos by linarith
qed

lemma Alignment_max_value:
  "Alignment_value (Alignment_max a b) = max (Alignment_value a) (Alignment_value b)"
  by (simp add: Alignment_max_def)

subsection \<open>The loop keeps its invariant\<close>

lemma layout_inv_init: "layout_inv Alignment_byte 0 []"
  by (simp add: layout_inv_def)

lemma layout_inv_step:
  assumes "layout_inv al sz fm"
  shows "layout_inv (Alignment_max al (alignment ty))
           (Alignment_align sz (alignment ty) + size' ty)
           (fm @ [(name, \<lparr>field_type = ty, offset = Alignment_align sz (alignment ty)\<rparr>)])"
proof -
  let ?o = "Alignment_align sz (alignment ty)"
  let ?f = "\<lparr>field_type = ty, offset = ?o\<rparr>"
  have ge: "sz \<le> ?o" by (rule Alignment_align_ge)
  have dv: "field_align ?f dvd offset ?f"
    by (simp add: field_align_def Alignment_align_dvd)
  have a: "\<forall>f \<in> set (map snd (fm @ [(name, ?f)])).
             field_align f dvd offset f \<and> field_end f \<le> ?o + size' ty"
    using assms ge dv by (auto simp: layout_inv_def field_end_def)
  have b: "sorted_wrt (\<lambda>f g. field_end f \<le> offset g) (map snd (fm @ [(name, ?f)]))"
    using assms ge by (auto simp: layout_inv_def sorted_wrt_append)
  have fin: "finite (insert 1 (field_align ` set (map snd fm)))" by simp
  have c: "Alignment_value (Alignment_max al (alignment ty))
        = Max (insert 1 (field_align ` set (map snd (fm @ [(name, ?f)]))))"
  proof -
    have "insert 1 (field_align ` set (map snd (fm @ [(name, ?f)])))
        = insert (Alignment_value (alignment ty)) (insert 1 (field_align ` set (map snd fm)))"
      by (auto simp: field_align_def)
    then have "Max (insert 1 (field_align ` set (map snd (fm @ [(name, ?f)]))))
        = max (Alignment_value (alignment ty)) (Max (insert 1 (field_align ` set (map snd fm))))"
      using fin by (simp only: Max_insert[OF fin insert_not_empty])
    then show ?thesis using assms by (simp add: layout_inv_def Alignment_max_value max.commute)
  qed
  show ?thesis unfolding layout_inv_def using a b c by blast
qed

lemma Type_loop_unfold:
  assumes "Type_loop ((name, ty) # ps) al sz fm = Inr t"
  shows "\<not> has fm name"
    and "Type_loop ps (Alignment_max al (alignment ty)) (Alignment_align sz (alignment ty) + size' ty)
           (fm @ [(name, \<lparr>field_type = ty, offset = Alignment_align sz (alignment ty)\<rparr>)]) = Inr t"
  using assms by (auto simp: Let_def split: if_splits)

lemma Type_loop_inv:
  "Type_loop ps al sz fm = Inr t \<Longrightarrow> layout_inv al sz fm \<Longrightarrow>
   layout_inv (type_alignment t) (type_size t) (type_fields t)"
proof (induction ps arbitrary: al sz fm)
  case Nil
  then show ?case by auto
next
  case (Cons p ps)
  obtain name ty where p: "p = (name, ty)" by (cases p)
  from Cons.prems(1) show ?case
    unfolding p using Cons.IH Type_loop_unfold(2) layout_inv_step[OF Cons.prems(2)] by blast
qed

lemma Type_loop_fields:
  "Type_loop ps al sz fm = Inr t \<Longrightarrow>
   map (\<lambda>(n, f). (n, field_type f)) (type_fields t) = map (\<lambda>(n, f). (n, field_type f)) fm @ ps"
proof (induction ps arbitrary: al sz fm)
  case Nil
  then show ?case by auto
next
  case (Cons p ps)
  obtain name ty where p: "p = (name, ty)" by (cases p)
  from Cons.IH[OF Type_loop_unfold(2)[OF Cons.prems[unfolded p]]] show ?case using p by simp
qed

lemma Type_loop_distinct:
  "Type_loop ps al sz fm = Inr t \<Longrightarrow> distinct (map fst fm) \<Longrightarrow> distinct (map fst (type_fields t))"
proof (induction ps arbitrary: al sz fm)
  case Nil
  then show ?case by auto
next
  case (Cons p ps)
  obtain name ty where p: "p = (name, ty)" by (cases p)
  note step = Type_loop_unfold[OF Cons.prems(1)[unfolded p]]
  have "distinct (map fst (fm @ [(name, \<lparr>field_type = ty, offset = Alignment_align sz (alignment ty)\<rparr>)]))"
    using step(1) Cons.prems(2) by (auto simp: has_def)
  with step(2) show ?case using Cons.IH by blast
qed

lemma Type_loop_size:
  "Type_loop ps al sz fm = Inr t \<Longrightarrow>
   sz = (if fm = [] then 0 else field_end (snd (last fm))) \<Longrightarrow>
   type_size t = (if type_fields t = [] then 0 else field_end (snd (last (type_fields t))))"
proof (induction ps arbitrary: al sz fm)
  case Nil
  then show ?case by auto
next
  case (Cons p ps)
  obtain name ty where p: "p = (name, ty)" by (cases p)
  let ?fm = "fm @ [(name, \<lparr>field_type = ty, offset = Alignment_align sz (alignment ty)\<rparr>)]"
  note step = Type_loop_unfold(2)[OF Cons.prems(1)[unfolded p]]
  moreover have "Alignment_align sz (alignment ty) + size' ty
               = (if ?fm = [] then 0 else field_end (snd (last ?fm)))"
    by (simp add: field_end_def)
  ultimately show ?case by (rule Cons.IH)
qed

subsection \<open>What the invariant gives\<close>

lemma layout_inv_sorted:
  assumes "layout_inv al sz fm"
  shows "sorted (map (offset \<circ> snd) fm)"
proof -
  have "sorted_wrt (\<lambda>f g. field_end f \<le> offset g) (map snd fm)"
    using assms by (simp add: layout_inv_def)
  then have "sorted_wrt (\<lambda>f g. offset f \<le> offset g) (map snd fm)"
    by (rule sorted_wrt_mono_rel[rotated]) (simp add: field_end_def)
  then show ?thesis by (simp add: sorted_wrt_map comp_def)
qed

lemma layout_inv_disjoint:
  assumes inv: "layout_inv al sz fm" and i: "i < length fm" and j: "j < length fm" and ne: "i \<noteq> j"
  shows "{offset (snd (fm ! i)) ..< offset (snd (fm ! i)) + size' (field_type (snd (fm ! i)))}
       \<inter> {offset (snd (fm ! j)) ..< offset (snd (fm ! j)) + size' (field_type (snd (fm ! j)))} = {}"
proof -
  have sw: "sorted_wrt (\<lambda>f g. field_end f \<le> offset g) (map snd fm)"
    using inv by (simp add: layout_inv_def)
  have ord: "field_end (snd (fm ! a)) \<le> offset (snd (fm ! b))" if "a < b" "b < length fm" for a b
    using sorted_wrt_nth_less[OF sw, of a b] that by simp
  show ?thesis
  proof (cases "i < j")
    case True
    from ord[OF True j] show ?thesis by (auto simp: field_end_def)
  next
    case False
    with ne have "j < i" by simp
    from ord[OF this i] show ?thesis by (auto simp: field_end_def)
  qed
qed

lemma Type_new_names_distinct:
  "Type_new props = Inr t \<Longrightarrow> distinct (map fst (type_fields t))"
  using Type_loop_distinct[of "concat props" Alignment_byte 0 "[]" t] by (simp add: Type_new_def)

text \<open>The constructor returns a type whenever the property names are distinct.\<close>

lemma Type_loop_returns:
  "distinct (map fst fm @ map fst ps) \<Longrightarrow> \<exists>t. Type_loop ps al sz fm = Inr t"
proof (induction ps arbitrary: al sz fm)
  case Nil
  then show ?case by simp
next
  case (Cons p ps)
  obtain name ty where p: "p = (name, ty)" by (cases p)
  let ?fm = "fm @ [(name, \<lparr>field_type = ty, offset = Alignment_align sz (alignment ty)\<rparr>)]"
  from Cons.prems p have fresh: "\<not> has fm name" by (auto simp: has_def)
  from Cons.prems p have "distinct (map fst ?fm @ map fst ps)" by auto
  from Cons.IH[OF this] obtain t where
    "Type_loop ps (Alignment_max al (alignment ty)) (Alignment_align sz (alignment ty) + size' ty) ?fm = Inr t"
    by blast
  with fresh p show ?case by (simp add: Let_def)
qed

lemma Type_new_returns:
  "distinct (map fst (concat props)) \<Longrightarrow> \<exists>t. Type_new props = Inr t"
  using Type_loop_returns[of "[]" "concat props" Alignment_byte 0] by (simp add: Type_new_def)

text \<open>
  C1. When the constructor of \<open>Record.Type\<close> returns a type for the properties \<open>props\<close>,
  its fields are the declared ones in declaration order, every offset is a multiple of
  the alignment of the field's type, the offsets are non-decreasing, the intervals
  \<open>[offset, offset + size)\<close> of two different fields are disjoint, and the alignment of
  the type is byte alignment when there is no field and the largest alignment among the
  fields otherwise. Offsets are natural numbers, so none is negative.
\<close>

theorem Type_new_layout:
  "Type_new props = Inr t \<Longrightarrow>
     map (\<lambda>(n, f). (n, field_type f)) (type_fields t) = concat props
   \<and> (\<forall>(n, f) \<in> set (type_fields t). Alignment_value (alignment (field_type f)) dvd offset f)
   \<and> sorted (map (offset \<circ> snd) (type_fields t))
   \<and> (\<forall>i < length (type_fields t). \<forall>j < length (type_fields t). i \<noteq> j \<longrightarrow>
        {offset (snd (type_fields t ! i)) ..<
           offset (snd (type_fields t ! i)) + size' (field_type (snd (type_fields t ! i)))}
      \<inter> {offset (snd (type_fields t ! j)) ..<
           offset (snd (type_fields t ! j)) + size' (field_type (snd (type_fields t ! j)))} = {})
   \<and> (type_fields t = [] \<longrightarrow> type_alignment t = Alignment_byte)
   \<and> (type_fields t \<noteq> [] \<longrightarrow>
        Alignment_value (type_alignment t) =
          Max ((\<lambda>(n, f). Alignment_value (alignment (field_type f))) ` set (type_fields t)))"
proof -
  assume built: "Type_new props = Inr t"
  then have loop: "Type_loop (concat props) Alignment_byte 0 [] = Inr t"
    by (simp add: Type_new_def)
  have inv: "layout_inv (type_alignment t) (type_size t) (type_fields t)"
    by (rule Type_loop_inv[OF loop layout_inv_init])
  have c1: "map (\<lambda>(n, f). (n, field_type f)) (type_fields t) = concat props"
    using Type_loop_fields[OF loop] by simp
  have c2: "\<forall>(n, f) \<in> set (type_fields t). Alignment_value (alignment (field_type f)) dvd offset f"
    using inv by (auto simp: layout_inv_def field_align_def)
  have c3: "sorted (map (offset \<circ> snd) (type_fields t))"
    by (rule layout_inv_sorted[OF inv])
  have c4: "\<forall>i < length (type_fields t). \<forall>j < length (type_fields t). i \<noteq> j \<longrightarrow>
        {offset (snd (type_fields t ! i)) ..<
           offset (snd (type_fields t ! i)) + size' (field_type (snd (type_fields t ! i)))}
      \<inter> {offset (snd (type_fields t ! j)) ..<
           offset (snd (type_fields t ! j)) + size' (field_type (snd (type_fields t ! j)))} = {}"
    using layout_inv_disjoint[OF inv] by blast
  have mx: "Alignment_value (type_alignment t)
          = Max (insert 1 (field_align ` set (map snd (type_fields t))))"
    using inv by (simp add: layout_inv_def)
  have c5: "type_fields t = [] \<longrightarrow> type_alignment t = Alignment_byte"
  proof
    assume "type_fields t = []"
    with mx have "Alignment_value (type_alignment t) = 1" by simp
    then show "type_alignment t = Alignment_byte" by (cases "type_alignment t") simp_all
  qed
  have c6: "type_fields t \<noteq> [] \<longrightarrow>
        Alignment_value (type_alignment t) =
          Max ((\<lambda>(n, f). Alignment_value (alignment (field_type f))) ` set (type_fields t))"
  proof
    assume ne: "type_fields t \<noteq> []"
    let ?S = "field_align ` set (map snd (type_fields t))"
    have fin: "finite ?S" and nemp: "?S \<noteq> {}" using ne by auto
    have "\<forall>x \<in> ?S. 1 \<le> x" using Alignment_value_pos by (auto simp: field_align_def Suc_leI)
    then have "1 \<le> Max ?S" using fin nemp by (meson Max_in)
    then have "Max (insert 1 ?S) = Max ?S" using fin nemp by (simp add: max_def)
    moreover have "?S = (\<lambda>(n, f). Alignment_value (alignment (field_type f))) ` set (type_fields t)"
      by (force simp: field_align_def image_iff)
    ultimately show "Alignment_value (type_alignment t) =
          Max ((\<lambda>(n, f). Alignment_value (alignment (field_type f))) ` set (type_fields t))"
      using mx by simp
  qed
  show ?thesis using c1 c2 c3 c4 c5 c6 by blast
qed

text \<open>
  The theorem at three fields given in two argument lists: a byte, then an 8-byte field
  aligned to 8, then a 2-byte field aligned to 2. The offsets are 0, 8 and 16.
\<close>

theorem Type_new_layout_witness:
  "Type_new [[(''a'', \<lparr>size' = 1, alignment = Alignment_byte\<rparr>)],
             [(''b'', \<lparr>size' = 8, alignment = Alignment_doubleWord\<rparr>),
              (''c'', \<lparr>size' = 2, alignment = Alignment_halfWord\<rparr>)]]
   = Inr \<lparr>type_alignment = Alignment_doubleWord, type_size = 18,
          type_fields =
            [(''a'', \<lparr>field_type = \<lparr>size' = 1, alignment = Alignment_byte\<rparr>, offset = 0\<rparr>),
             (''b'', \<lparr>field_type = \<lparr>size' = 8, alignment = Alignment_doubleWord\<rparr>, offset = 8\<rparr>),
             (''c'', \<lparr>field_type = \<lparr>size' = 2, alignment = Alignment_halfWord\<rparr>, offset = 16\<rparr>)]\<rparr>
   \<and> sorted [0, 8, 16 :: nat]
   \<and> {0 ..< 1 :: nat} \<inter> {8 ..< 16} = {}"
proof -
  let ?props = "[[(''a'', \<lparr>size' = 1, alignment = Alignment_byte\<rparr>)],
             [(''b'', \<lparr>size' = 8, alignment = Alignment_doubleWord\<rparr>),
              (''c'', \<lparr>size' = 2, alignment = Alignment_halfWord\<rparr>)]]"
  let ?t = "\<lparr>type_alignment = Alignment_doubleWord, type_size = 18,
          type_fields =
            [(''a'', \<lparr>field_type = \<lparr>size' = 1, alignment = Alignment_byte\<rparr>, offset = 0\<rparr>),
             (''b'', \<lparr>field_type = \<lparr>size' = 8, alignment = Alignment_doubleWord\<rparr>, offset = 8\<rparr>),
             (''c'', \<lparr>field_type = \<lparr>size' = 2, alignment = Alignment_halfWord\<rparr>, offset = 16\<rparr>)]\<rparr>"
  have built: "Type_new ?props = Inr ?t"
    by (simp add: Type_new_def has_def Alignment_align_def Alignment_max_def)
  have "sorted (map (offset \<circ> snd) (type_fields ?t))"
    using Type_new_layout[OF built] by blast
  moreover have "{offset (snd (type_fields ?t ! 0)) ..<
           offset (snd (type_fields ?t ! 0)) + size' (field_type (snd (type_fields ?t ! 0)))}
      \<inter> {offset (snd (type_fields ?t ! 1)) ..<
           offset (snd (type_fields ?t ! 1)) + size' (field_type (snd (type_fields ?t ! 1)))} = {}"
    using Type_new_layout[OF built] by force
  ultimately show ?thesis using built by simp
qed

text \<open>
  C2, as stated, fails. A 4-byte field aligned to 4 followed by one byte gives a type of
  alignment 4 whose last field ends at 5; the size is 5, and 5 rounded up to the
  alignment of the type is 8.
\<close>

theorem Type_new_size_not_rounded:
  "Type_new [[(''a'', \<lparr>size' = 4, alignment = Alignment_word\<rparr>),
              (''b'', \<lparr>size' = 1, alignment = Alignment_byte\<rparr>)]]
   = Inr \<lparr>type_alignment = Alignment_word, type_size = 5,
          type_fields =
            [(''a'', \<lparr>field_type = \<lparr>size' = 4, alignment = Alignment_word\<rparr>, offset = 0\<rparr>),
             (''b'', \<lparr>field_type = \<lparr>size' = 1, alignment = Alignment_byte\<rparr>, offset = 4\<rparr>)]\<rparr>
   \<and> Alignment_align (4 + 1) Alignment_word = 8
   \<and> (5 :: nat) \<noteq> Alignment_align (4 + 1) Alignment_word"
  by (simp add: Type_new_def has_def Alignment_align_def Alignment_max_def)

text \<open>
  C2, amended. The size of a type the constructor returns is the final running offset:
  0 when there is no field, otherwise the offset of the last field plus the size of its
  type. The loop does not round it to the alignment of the type.
\<close>

theorem Type_new_size:
  "Type_new props = Inr t \<Longrightarrow>
   type_size t =
     (if type_fields t = [] then 0
      else offset (snd (last (type_fields t))) + size' (field_type (snd (last (type_fields t)))))"
  using Type_loop_size[of "concat props" Alignment_byte 0 "[]" t]
  by (simp add: Type_new_def field_end_def)

theorem Type_new_size_witness:
  "Type_new [[(''x'', \<lparr>size' = 2, alignment = Alignment_halfWord\<rparr>),
              (''y'', \<lparr>size' = 4, alignment = Alignment_word\<rparr>),
              (''z'', \<lparr>size' = 1, alignment = Alignment_byte\<rparr>)]]
   = Inr \<lparr>type_alignment = Alignment_word, type_size = 9,
          type_fields =
            [(''x'', \<lparr>field_type = \<lparr>size' = 2, alignment = Alignment_halfWord\<rparr>, offset = 0\<rparr>),
             (''y'', \<lparr>field_type = \<lparr>size' = 4, alignment = Alignment_word\<rparr>, offset = 4\<rparr>),
             (''z'', \<lparr>field_type = \<lparr>size' = 1, alignment = Alignment_byte\<rparr>, offset = 8\<rparr>)]\<rparr>
   \<and> (9 :: nat) = 8 + 1"
proof -
  have built: "Type_new [[(''x'', \<lparr>size' = 2, alignment = Alignment_halfWord\<rparr>),
              (''y'', \<lparr>size' = 4, alignment = Alignment_word\<rparr>),
              (''z'', \<lparr>size' = 1, alignment = Alignment_byte\<rparr>)]]
   = Inr \<lparr>type_alignment = Alignment_word, type_size = 9,
          type_fields =
            [(''x'', \<lparr>field_type = \<lparr>size' = 2, alignment = Alignment_halfWord\<rparr>, offset = 0\<rparr>),
             (''y'', \<lparr>field_type = \<lparr>size' = 4, alignment = Alignment_word\<rparr>, offset = 4\<rparr>),
             (''z'', \<lparr>field_type = \<lparr>size' = 1, alignment = Alignment_byte\<rparr>, offset = 8\<rparr>)]\<rparr>"
    by (simp add: Type_new_def has_def Alignment_align_def Alignment_max_def)
  show ?thesis using built Type_new_size[OF built] by simp
qed

section \<open>The arena: \<open>alloc\<close>, \<open>copyWithin\<close> and \<open>MemoryLocation\<close>\<close>

subsection \<open>Zero fill\<close>

lemma getUint8View_fill_length: "length (getUint8View_fill buf p sz v) = length buf"
  by (simp add: getUint8View_fill_def)

lemma getUint8View_fill_nth:
  "i < length buf \<Longrightarrow>
   getUint8View_fill buf p sz v ! i = (if p \<le> i \<and> i < p + sz then v else buf ! i)"
  by (simp add: getUint8View_fill_def)

subsection \<open>The three outcomes of \<open>alloc\<close> when the allocator returns\<close>

lemma alloc_null:
  assumes "aligned_alloc (exports m) (Alignment_value align) sz (buffer m) = (Inr 0, buf)"
  shows "alloc m align sz =
           (Inl AllocationFailed, m\<lparr>buffer := buf\<rparr>,
            [Alloc_failed (Alignment_value align) sz (length buf)])"
  using assms by (simp add: alloc_def)

lemma alloc_in_bounds:
  assumes "aligned_alloc (exports m) (Alignment_value align) sz (buffer m) = (Inr p, buf)"
    and "p \<noteq> 0" and "p + sz \<le> length buf"
  shows "alloc m align sz =
           (Inr \<lparr>range_memory = mem_id m, ptr = p, range_size = sz, isPreAllocated = False\<rparr>,
            m\<lparr>buffer := getUint8View_fill buf p sz 0\<rparr>, [])"
  using assms by (simp add: alloc_def MemoryRange_new_def)

lemma alloc_out_of_bounds:
  assumes "aligned_alloc (exports m) (Alignment_value align) sz (buffer m) = (Inr p, buf)"
    and "p \<noteq> 0" and "p + sz > length buf"
  shows "alloc m align sz =
           (Inl OutOfBounds, m\<lparr>buffer := buf\<rparr>,
            [Alloc_failed (Alignment_value align) sz (length buf)])"
  using assms by (simp add: alloc_def MemoryRange_new_def)

lemma alloc_trap:
  assumes "aligned_alloc (exports m) (Alignment_value align) sz (buffer m) = (Inl e, buf)"
  shows "alloc m align sz =
           (Inl e, m\<lparr>buffer := buf\<rparr>, [Alloc_failed (Alignment_value align) sz (length buf)])"
  using assms by (simp add: alloc_def)

text \<open>A range that \<open>alloc\<close> returns lies inside the buffer and is zero.\<close>

lemma alloc_result_in_bounds:
  assumes "alloc m align sz = (Inr r, m', out)"
  shows "ptr r \<noteq> 0 \<and> range_size r = sz \<and> ptr r + range_size r \<le> length (buffer m')
       \<and> (\<forall>i < sz. buffer m' ! (ptr r + i) = 0) \<and> out = []"
proof -
  obtain res buf where a: "aligned_alloc (exports m) (Alignment_value align) sz (buffer m) = (res, buf)"
    by (cases "aligned_alloc (exports m) (Alignment_value align) sz (buffer m)")
  show ?thesis
  proof (cases res)
    case (Inl e)
    with a assms show ?thesis by (simp add: alloc_trap)
  next
    case (Inr p)
    show ?thesis
    proof (cases "p = 0")
      case True
      with a Inr assms show ?thesis by (simp add: alloc_null)
    next
      case False
      note nz = this
      show ?thesis
      proof (cases "p + sz \<le> length buf")
        case True
        from alloc_in_bounds[OF a[unfolded Inr] nz True] assms True nz
        show ?thesis by (auto simp: getUint8View_fill_length getUint8View_fill_nth)
      next
        case False
        then have "p + sz > length buf" by simp
        from alloc_out_of_bounds[OF a[unfolded Inr] nz this] assms show ?thesis by simp
      qed
    qed
  qed
qed

text \<open>
  C4, as stated, fails in its second half. On a buffer of 8 bytes the allocator returns
  the address 16, which is not null; the range \<open>[16, 20)\<close> is not inside the buffer, so
  \<open>alloc\<close> raises the out-of-bounds error, logs the line and returns no range.
\<close>

theorem alloc_nonzero_address_raises:
  "aligned_alloc (exports \<lparr>mem_id = ''m'', exports = \<lparr>aligned_alloc = alloc_at 16\<rparr>,
                          buffer = [0, 0, 0, 0, 0, 0, 0, 0]\<rparr>)
     (Alignment_value Alignment_word) 4 [0, 0, 0, 0, 0, 0, 0, 0]
   = (Inr 16, [0, 0, 0, 0, 0, 0, 0, 0])
   \<and> alloc \<lparr>mem_id = ''m'', exports = \<lparr>aligned_alloc = alloc_at 16\<rparr>,
            buffer = [0, 0, 0, 0, 0, 0, 0, 0]\<rparr> Alignment_word 4
   = (Inl OutOfBounds,
      \<lparr>mem_id = ''m'', exports = \<lparr>aligned_alloc = alloc_at 16\<rparr>,
       buffer = [0, 0, 0, 0, 0, 0, 0, 0]\<rparr>,
      [Alloc_failed 4 4 8])"
  by (simp add: alloc_def MemoryRange_new_def alloc_at_def)

text \<open>
  C4, amended. If \<open>aligned_alloc\<close> returns the null address, \<open>alloc\<close> raises the
  allocation failure, logs one line with the requested alignment and size and the
  length of the buffer as the allocator left it, and returns no range. If
  \<open>aligned_alloc\<close> returns a non-null address \<open>p\<close> with \<open>p + size\<close> within the buffer,
  \<open>alloc\<close> logs nothing and returns the range with pointer \<open>p\<close> and the requested size;
  every byte of the range reads as zero in the memory after the call, the bytes outside
  the range are as the allocator left them, and the buffer keeps its length.
\<close>

theorem alloc_null_or_zeroed:
  "(aligned_alloc (exports m0) (Alignment_value align0) sz0 (buffer m0) = (Inr 0, buf0) \<longrightarrow>
      alloc m0 align0 sz0 =
        (Inl AllocationFailed, m0\<lparr>buffer := buf0\<rparr>,
         [Alloc_failed (Alignment_value align0) sz0 (length buf0)]))
   \<and> (aligned_alloc (exports m) (Alignment_value align) sz (buffer m) = (Inr p, buf)
        \<and> p \<noteq> 0 \<and> p + sz \<le> length buf \<longrightarrow>
      (\<exists>m'. alloc m align sz =
          (Inr \<lparr>range_memory = mem_id m, ptr = p, range_size = sz, isPreAllocated = False\<rparr>, m', [])
        \<and> mem_id m' = mem_id m
        \<and> length (buffer m') = length buf
        \<and> (\<forall>i < sz. buffer m' ! (p + i) = 0)
        \<and> (\<forall>i < length buf. i < p \<or> p + sz \<le> i \<longrightarrow> buffer m' ! i = buf ! i)))"
proof (intro conjI impI)
  assume "aligned_alloc (exports m0) (Alignment_value align0) sz0 (buffer m0) = (Inr 0, buf0)"
  then show "alloc m0 align0 sz0 =
        (Inl AllocationFailed, m0\<lparr>buffer := buf0\<rparr>,
         [Alloc_failed (Alignment_value align0) sz0 (length buf0)])"
    by (rule alloc_null)
next
  assume h: "aligned_alloc (exports m) (Alignment_value align) sz (buffer m) = (Inr p, buf)
        \<and> p \<noteq> 0 \<and> p + sz \<le> length buf"
  let ?m = "m\<lparr>buffer := getUint8View_fill buf p sz 0\<rparr>"
  have eq: "alloc m align sz =
          (Inr \<lparr>range_memory = mem_id m, ptr = p, range_size = sz, isPreAllocated = False\<rparr>, ?m, [])"
    using h by (simp add: alloc_in_bounds)
  have z: "\<forall>i < sz. buffer ?m ! (p + i) = 0"
    using h by (simp add: getUint8View_fill_nth)
  have o: "\<forall>i < length buf. i < p \<or> p + sz \<le> i \<longrightarrow> buffer ?m ! i = buf ! i"
    by (auto simp: getUint8View_fill_nth)
  show "\<exists>m'. alloc m align sz =
          (Inr \<lparr>range_memory = mem_id m, ptr = p, range_size = sz, isPreAllocated = False\<rparr>, m', [])
        \<and> mem_id m' = mem_id m
        \<and> length (buffer m') = length buf
        \<and> (\<forall>i < sz. buffer m' ! (p + i) = 0)
        \<and> (\<forall>i < length buf. i < p \<or> p + sz \<le> i \<longrightarrow> buffer m' ! i = buf ! i)"
    using eq z o by (intro exI[of _ ?m]) (simp add: getUint8View_fill_length)
qed

text \<open>
  The theorem at an allocator that returns null for a request of 4 bytes, and at one
  that returns the address 4 for a request of 2 bytes on the buffer \<open>1, ..., 8\<close>: the
  bytes at 4 and 5 become zero.
\<close>

theorem alloc_null_or_zeroed_witness:
  "alloc \<lparr>mem_id = ''m'', exports = \<lparr>aligned_alloc = alloc_at 0\<rparr>,
          buffer = [1, 2, 3, 4, 5, 6, 7, 8]\<rparr> Alignment_word 4
   = (Inl AllocationFailed,
      \<lparr>mem_id = ''m'', exports = \<lparr>aligned_alloc = alloc_at 0\<rparr>,
       buffer = [1, 2, 3, 4, 5, 6, 7, 8]\<rparr>,
      [Alloc_failed 4 4 8])
   \<and> alloc \<lparr>mem_id = ''m'', exports = \<lparr>aligned_alloc = alloc_at 4\<rparr>,
            buffer = [1, 2, 3, 4, 5, 6, 7, 8]\<rparr> Alignment_halfWord 2
   = (Inr \<lparr>range_memory = ''m'', ptr = 4, range_size = 2, isPreAllocated = False\<rparr>,
      \<lparr>mem_id = ''m'', exports = \<lparr>aligned_alloc = alloc_at 4\<rparr>,
       buffer = [1, 2, 3, 4, 0, 0, 7, 8]\<rparr>,
      [])"
proof -
  let ?z = "\<lparr>mem_id = ''m'', exports = \<lparr>aligned_alloc = alloc_at 0\<rparr>,
              buffer = [1, 2, 3, 4, 5, 6, 7, 8 :: byte]\<rparr>"
  let ?m = "\<lparr>mem_id = ''m'', exports = \<lparr>aligned_alloc = alloc_at 4\<rparr>,
             buffer = [1, 2, 3, 4, 5, 6, 7, 8 :: byte]\<rparr>"
  have h0: "aligned_alloc (exports ?z) (Alignment_value Alignment_word) 4 (buffer ?z)
              = (Inr 0, [1, 2, 3, 4, 5, 6, 7, 8])"
    by (simp add: alloc_at_def)
  have h: "aligned_alloc (exports ?m) (Alignment_value Alignment_halfWord) 2 (buffer ?m)
              = (Inr 4, [1, 2, 3, 4, 5, 6, 7, 8])
           \<and> (4 :: nat) \<noteq> 0 \<and> (4 :: nat) + 2 \<le> length [1, 2, 3, 4, 5, 6, 7, 8 :: byte]"
    by (simp add: alloc_at_def)
  note inst = alloc_null_or_zeroed[of ?z Alignment_word 4 "[1, 2, 3, 4, 5, 6, 7, 8]"
                 ?m Alignment_halfWord 2 4 "[1, 2, 3, 4, 5, 6, 7, 8]"]
  from inst h0 have "alloc ?z Alignment_word 4 =
        (Inl AllocationFailed, ?z\<lparr>buffer := [1, 2, 3, 4, 5, 6, 7, 8]\<rparr>,
         [Alloc_failed (Alignment_value Alignment_word) 4 (length [1, 2, 3, 4, 5, 6, 7, 8 :: byte])])"
    by blast
  then have a: "alloc ?z Alignment_word 4 = (Inl AllocationFailed, ?z, [Alloc_failed 4 4 8])"
    by simp
  from inst h obtain m' where m': "alloc ?m Alignment_halfWord 2 =
          (Inr \<lparr>range_memory = mem_id ?m, ptr = 4, range_size = 2, isPreAllocated = False\<rparr>, m', [])"
    by blast
  have b: "alloc ?m Alignment_halfWord 2
         = (Inr \<lparr>range_memory = ''m'', ptr = 4, range_size = 2, isPreAllocated = False\<rparr>,
            ?m\<lparr>buffer := [1, 2, 3, 4, 0, 0, 7, 8]\<rparr>, [])"
    by (simp add: alloc_def MemoryRange_new_def getUint8View_fill_def alloc_at_def upt_rec)
  show ?thesis using a b m' by simp
qed

subsection \<open>\<open>copyWithin\<close>\<close>

lemma Uint8Array_copyWithin_length:
  "length (Uint8Array_copyWithin raw target start end') = length raw"
  by (auto simp: Uint8Array_copyWithin_def Let_def min_def)

lemma Uint8Array_copyWithin_in_bounds:
  assumes "d + n \<le> length raw" and "s + n \<le> length raw"
  shows "Uint8Array_copyWithin raw d s (s + n) = take d raw @ take n (drop s raw) @ drop (d + n) raw"
  using assms by (simp add: Uint8Array_copyWithin_def Let_def min_def)

lemma Uint8Array_copyWithin_nth:
  assumes "d + n \<le> length raw" and "s + n \<le> length raw" and "i < length raw"
  shows "Uint8Array_copyWithin raw d s (s + n) ! i =
           (if d \<le> i \<and> i < d + n then raw ! (s + (i - d)) else raw ! i)"
proof -
  let ?A = "take d raw" and ?B = "take n (drop s raw)" and ?C = "drop (d + n) raw"
  have eq: "Uint8Array_copyWithin raw d s (s + n) = ?A @ ?B @ ?C"
    by (rule Uint8Array_copyWithin_in_bounds[OF assms(1,2)])
  have l1: "length ?A = d" using assms by simp
  have l2: "length ?B = n" using assms by simp
  consider (lo) "i < d" | (mid) "d \<le> i" "i < d + n" | (hi) "d + n \<le> i" by linarith
  then show ?thesis
  proof cases
    case lo
    then have "(?A @ ?B @ ?C) ! i = ?A ! i" using l1 by (simp add: nth_append)
    also have "\<dots> = raw ! i" using lo by simp
    finally show ?thesis unfolding eq using lo by simp
  next
    case mid
    then have k: "i - d < n" by linarith
    have "(?A @ ?B @ ?C) ! i = (?B @ ?C) ! (i - d)"
      using mid l1 by (simp add: nth_append)
    also have "\<dots> = ?B ! (i - d)" using k l2 by (simp add: nth_append)
    also have "\<dots> = raw ! (s + (i - d))" using k assms by simp
    finally show ?thesis unfolding eq using mid by simp
  next
    case hi
    then have nd: "\<not> i < d" and nk: "\<not> i - d < n" by linarith+
    have "(?A @ ?B @ ?C) ! i = (?B @ ?C) ! (i - d)"
      using nd l1 by (simp add: nth_append)
    also have "\<dots> = ?C ! (i - d - n)" using nk l2 by (simp add: nth_append)
    also have "\<dots> = raw ! (d + n + (i - d - n))" using assms by simp
    also have "d + n + (i - d - n) = i" using hi by linarith
    finally show ?thesis unfolding eq using hi by simp
  qed
qed

text \<open>
  C5, as stated, fails. On the buffer \<open>1, 2, 3, 4\<close>, with the destination range
  \<open>[2, 3)\<close> of one byte and the source range \<open>[0, 2)\<close> of two bytes, both inside the
  buffer, the call copies two bytes: the byte at index 3, outside the destination
  range, changes from 4 to 2.
\<close>

theorem copyWithin_writes_past_dest:
  "buffer (copyWithin
      \<lparr>mem_id = ''m'', exports = \<lparr>aligned_alloc = alloc_at 0\<rparr>, buffer = [1, 2, 3, 4]\<rparr>
      \<lparr>range_memory = ''m'', ptr = 2, range_size = 1, isPreAllocated = False\<rparr>
      \<lparr>range_memory = ''m'', ptr = 0, range_size = 2\<rparr>) = [1, 2, 1, 2]
   \<and> [1, 2, 1, 2 :: byte] ! 3 \<noteq> [1, 2, 3, 4] ! 3
   \<and> ptr \<lparr>range_memory = ''m'', ptr = 2, range_size = 1, isPreAllocated = False\<rparr>
       + range_size \<lparr>range_memory = ''m'', ptr = 2, range_size = 1, isPreAllocated = False\<rparr>
      \<le> 3"
  by (simp add: copyWithin_def Uint8Array_copyWithin_def)

text \<open>
  C5, amended. For a destination range and a source range that both lie inside the
  buffer, and a source no larger than the destination, \<open>copyWithin\<close> keeps the length of
  the buffer, puts at \<open>dest.ptr + i\<close> the byte that was at \<open>src.ptr + i\<close> before the call
  for every \<open>i < src.size\<close>, and leaves every byte outside
  \<open>[dest.ptr, dest.ptr + dest.size)\<close> as it was.
\<close>

theorem copyWithin_within_dest:
  "ptr src + range_size src \<le> length (buffer m) \<Longrightarrow>
   ptr dest + range_size dest \<le> length (buffer m) \<Longrightarrow>
   range_size src \<le> range_size dest \<Longrightarrow>
     length (buffer (copyWithin m dest src)) = length (buffer m)
   \<and> (\<forall>i < range_size src.
         buffer (copyWithin m dest src) ! (ptr dest + i) = buffer m ! (ptr src + i))
   \<and> (\<forall>i < length (buffer m). i < ptr dest \<or> ptr dest + range_size dest \<le> i \<longrightarrow>
         buffer (copyWithin m dest src) ! i = buffer m ! i)"
proof -
  assume src: "ptr src + range_size src \<le> length (buffer m)"
    and dest: "ptr dest + range_size dest \<le> length (buffer m)"
    and fits: "range_size src \<le> range_size dest"
  have d: "ptr dest + range_size src \<le> length (buffer m)" using dest fits by linarith
  have b: "buffer (copyWithin m dest src)
         = Uint8Array_copyWithin (buffer m) (ptr dest) (ptr src) (ptr src + range_size src)"
    by (simp add: copyWithin_def)
  have nth: "buffer (copyWithin m dest src) ! i =
           (if ptr dest \<le> i \<and> i < ptr dest + range_size src
            then buffer m ! (ptr src + (i - ptr dest)) else buffer m ! i)"
    if "i < length (buffer m)" for i
    unfolding b by (rule Uint8Array_copyWithin_nth[OF d src that])
  have c1: "length (buffer (copyWithin m dest src)) = length (buffer m)"
    unfolding b by (rule Uint8Array_copyWithin_length)
  have c2: "\<forall>i < range_size src.
             buffer (copyWithin m dest src) ! (ptr dest + i) = buffer m ! (ptr src + i)"
  proof (intro allI impI)
    fix i assume i: "i < range_size src"
    then have "ptr dest + i < length (buffer m)" using d by linarith
    from nth[OF this] show "buffer (copyWithin m dest src) ! (ptr dest + i) = buffer m ! (ptr src + i)"
      using i by simp
  qed
  have c3: "\<forall>i < length (buffer m). i < ptr dest \<or> ptr dest + range_size dest \<le> i \<longrightarrow>
             buffer (copyWithin m dest src) ! i = buffer m ! i"
  proof (intro allI impI)
    fix i assume i: "i < length (buffer m)" and out: "i < ptr dest \<or> ptr dest + range_size dest \<le> i"
    from out fits have "\<not> (ptr dest \<le> i \<and> i < ptr dest + range_size src)" by linarith
    with nth[OF i] show "buffer (copyWithin m dest src) ! i = buffer m ! i" by simp
  qed
  show ?thesis using c1 c2 c3 by blast
qed

text \<open>
  The theorem on the buffer \<open>1, ..., 6\<close> with the overlapping ranges \<open>[1, 4)\<close> as
  destination and \<open>[0, 2)\<close> as source: the two bytes 1, 2 land at the indices 1 and 2.
\<close>

theorem copyWithin_within_dest_witness:
  "buffer (copyWithin
      \<lparr>mem_id = ''m'', exports = \<lparr>aligned_alloc = alloc_at 0\<rparr>, buffer = [1, 2, 3, 4, 5, 6]\<rparr>
      \<lparr>range_memory = ''m'', ptr = 1, range_size = 3, isPreAllocated = False\<rparr>
      \<lparr>range_memory = ''m'', ptr = 0, range_size = 2\<rparr>) = [1, 1, 2, 4, 5, 6]
   \<and> length (buffer (copyWithin
      \<lparr>mem_id = ''m'', exports = \<lparr>aligned_alloc = alloc_at 0\<rparr>, buffer = [1, 2, 3, 4, 5, 6]\<rparr>
      \<lparr>range_memory = ''m'', ptr = 1, range_size = 3, isPreAllocated = False\<rparr>
      \<lparr>range_memory = ''m'', ptr = 0, range_size = 2\<rparr>)) = 6"
proof -
  let ?m = "\<lparr>mem_id = ''m'', exports = \<lparr>aligned_alloc = alloc_at 0\<rparr>,
             buffer = [1, 2, 3, 4, 5, 6 :: byte]\<rparr>"
  let ?dest = "\<lparr>range_memory = ''m'', ptr = 1, range_size = 3, isPreAllocated = False\<rparr>"
  let ?src = "\<lparr>range_memory = ''m'', ptr = 0, range_size = 2\<rparr>"
  have h1: "ptr ?src + range_size ?src \<le> length (buffer ?m)" by simp
  have h2: "ptr ?dest + range_size ?dest \<le> length (buffer ?m)" by simp
  have h3: "range_size ?src \<le> range_size ?dest" by simp
  have "length (buffer (copyWithin ?m ?dest ?src)) = length (buffer ?m)"
    using copyWithin_within_dest[OF h1 h2 h3] by blast
  moreover have "buffer (copyWithin ?m ?dest ?src) = [1, 1, 2, 4, 5, 6]"
    by (simp add: copyWithin_def Uint8Array_copyWithin_def)
  ultimately show ?thesis by simp
qed

subsection \<open>\<open>MemoryLocation\<close>\<close>

text \<open>
  C6. For a range \<open>r\<close> over the arena \<open>m\<close> that lies inside its buffer,
  \<open>MemoryLocation.to(m, MemoryLocation.from(r))\<close> returns a range of \<open>m\<close> with the pointer
  and the size of \<open>r\<close> (built by \<open>preAllocated\<close>).
\<close>

theorem MemoryLocation_round_trip:
  "range_memory r = mem_id m \<Longrightarrow> ptr r + range_size r \<le> length (buffer m) \<Longrightarrow>
   MemoryLocation_to m (MemoryLocation_from r) =
     Inr \<lparr>range_memory = mem_id m, ptr = ptr r, range_size = range_size r, isPreAllocated = True\<rparr>"
  by (simp add: MemoryLocation_to_def MemoryLocation_from_def preAllocated_def MemoryRange_new_def)

theorem MemoryLocation_round_trip_witness:
  "MemoryLocation_to
     \<lparr>mem_id = ''m'', exports = \<lparr>aligned_alloc = alloc_at 0\<rparr>, buffer = [1, 2, 3, 4]\<rparr>
     (MemoryLocation_from \<lparr>range_memory = ''m'', ptr = 1, range_size = 2, isPreAllocated = False\<rparr>)
   = Inr \<lparr>range_memory = ''m'', ptr = 1, range_size = 2, isPreAllocated = True\<rparr>"
proof -
  let ?m = "\<lparr>mem_id = ''m'', exports = \<lparr>aligned_alloc = alloc_at 0\<rparr>, buffer = [1, 2, 3, 4 :: byte]\<rparr>"
  let ?r = "\<lparr>range_memory = ''m'', ptr = 1, range_size = 2, isPreAllocated = False\<rparr>"
  have h1: "range_memory ?r = mem_id ?m" by simp
  have h2: "ptr ?r + range_size ?r \<le> length (buffer ?m)" by simp
  show ?thesis using MemoryLocation_round_trip[OF h1 h2] by simp
qed

text \<open>
  C7. Resolving a location whose arena id differs from the id of \<open>m\<close> raises the
  location-mismatch error; no range is returned.
\<close>

theorem MemoryLocation_to_mismatch:
  "loc_memory_id loc \<noteq> mem_id m \<Longrightarrow> MemoryLocation_to m loc = Inl LocationMismatch"
  by (auto simp add: MemoryLocation_to_def)

theorem MemoryLocation_to_mismatch_witness:
  "MemoryLocation_to
     \<lparr>mem_id = ''m'', exports = \<lparr>aligned_alloc = alloc_at 0\<rparr>, buffer = [1, 2, 3, 4]\<rparr>
     \<lparr>loc_memory_id = ''other'', loc_ptr = 0, loc_size = 2\<rparr>
   = Inl LocationMismatch"
proof -
  let ?m = "\<lparr>mem_id = ''m'', exports = \<lparr>aligned_alloc = alloc_at 0\<rparr>, buffer = [1, 2, 3, 4 :: byte]\<rparr>"
  let ?loc = "\<lparr>loc_memory_id = ''other'', loc_ptr = 0, loc_size = 2\<rparr>"
  have h: "loc_memory_id ?loc \<noteq> mem_id ?m" by simp
  show ?thesis using MemoryLocation_to_mismatch[OF h] by simp
qed

text \<open>
  C9. Resolving a location whose arena id is the id of \<open>m\<close> but whose \<open>ptr + size\<close>
  exceeds the length of the buffer of \<open>m\<close> raises the out-of-bounds error: the call goes
  through \<open>preAllocated\<close> and fails its bounds check.
\<close>

theorem MemoryLocation_to_out_of_bounds:
  "loc_memory_id loc = mem_id m \<Longrightarrow> loc_ptr loc + loc_size loc > length (buffer m) \<Longrightarrow>
     MemoryLocation_to m loc = Inl OutOfBounds
   \<and> MemoryLocation_to m loc = preAllocated m (loc_ptr loc) (loc_size loc)"
  by (simp add: MemoryLocation_to_def preAllocated_def)

theorem MemoryLocation_to_out_of_bounds_witness:
  "MemoryLocation_to
     \<lparr>mem_id = ''m'', exports = \<lparr>aligned_alloc = alloc_at 0\<rparr>, buffer = [1, 2, 3, 4]\<rparr>
     \<lparr>loc_memory_id = ''m'', loc_ptr = 3, loc_size = 2\<rparr>
   = Inl OutOfBounds"
proof -
  let ?m = "\<lparr>mem_id = ''m'', exports = \<lparr>aligned_alloc = alloc_at 0\<rparr>, buffer = [1, 2, 3, 4 :: byte]\<rparr>"
  let ?loc = "\<lparr>loc_memory_id = ''m'', loc_ptr = 3, loc_size = 2\<rparr>"
  have h1: "loc_memory_id ?loc = mem_id ?m" by simp
  have h2: "loc_ptr ?loc + loc_size ?loc > length (buffer ?m)" by simp
  show ?thesis using MemoryLocation_to_out_of_bounds[OF h1 h2] by simp
qed

section \<open>\<open>Lock\<close> and \<open>Signal\<close>\<close>

subsection \<open>Signed reading of the cell\<close>

lemma sint_pred:
  assumes "0 <s (v :: i32)"
  shows "sint (v - 1) = sint v - 1"
proof -
  have pos: "0 < sint v" using assms by (simp add: word_sless_alt)
  have ub: "sint v < 2 ^ 31" using sint_lt[of v] by simp
  have "sint (v - 1) = signed_take_bit 31 (sint v - sint (1 :: i32))"
    by (simp add: sint_word_ariths)
  also have "\<dots> = signed_take_bit 31 (sint v - 1)" by simp
  also have "\<dots> = sint v - 1"
    using pos ub by (intro signed_take_bit_int_eq_self) simp_all
  finally show ?thesis .
qed

lemma sint_succ:
  assumes "sint (v :: i32) < 2 ^ 31 - 1"
  shows "sint (v + 1) = sint v + 1"
proof -
  have lb: "- (2 ^ 31) \<le> sint v" using sint_ge[of v] by simp
  have "sint (v + 1) = signed_take_bit 31 (sint v + sint (1 :: i32))"
    by (simp add: sint_word_ariths)
  also have "\<dots> = signed_take_bit 31 (sint v + 1)" by simp
  also have "\<dots> = sint v + 1"
    using lb assms by (intro signed_take_bit_int_eq_self) simp_all
  finally show ?thesis .
qed

subsection \<open>\<open>release\<close>\<close>

lemma release_held_again:
  "1 < lockCount l \<Longrightarrow> release b l = (b, l\<lparr>lockCount := lockCount l - 1\<rparr>)"
  by (simp add: release_def)

lemma release_last:
  "lockCount l \<le> 1 \<Longrightarrow>
   release b l = (b\<lparr>cell := cell b + 1, waiters := waiters b - 1\<rparr>, l\<lparr>lockCount := 0\<rparr>)"
  by (simp add: release_def Atomics_add_def Atomics_notify_def)

lemma release_signed:
  "lockCount l \<le> 1 \<Longrightarrow> sint (cell b) < 2 ^ 31 - 1 \<Longrightarrow>
   sint (cell (fst (release b l))) = sint (cell b) + 1"
  by (simp add: release_last sint_succ)

subsection \<open>The loop of \<open>acquire\<close>\<close>

lemma acquire_loop_failed_pass:
  assumes "\<not> (0 <s val \<and> fst (Atomics_compareExchange b2 val (val - 1)) = val)"
  shows "(if 0 <s val then snd (Atomics_compareExchange b2 val (val - 1)) else b2) = b2"
  using assms by (auto simp: Atomics_compareExchange_def)

lemma acquire_loop_Some:
  "acquire_loop rs b l = Some (b', l') \<Longrightarrow>
   l' = l\<lparr>lockCount := 1\<rparr> \<and>
   (\<exists>k < length rs.
      0 <s cell (at_load rs k b)
    \<and> cell (at_cas rs k b) = cell (at_load rs k b)
    \<and> b' = (at_cas rs k b)\<lparr>cell := cell (at_load rs k b) - 1\<rparr>)"
proof (induction rs arbitrary: b)
  case Nil
  then show ?case by simp
next
  case (Cons r rs)
  let ?b1 = "before_load r b"
  let ?val = "Atomics_load ?b1"
  let ?b2 = "before_cas r ?b1"
  show ?case
  proof (cases "0 <s ?val \<and> fst (Atomics_compareExchange ?b2 ?val (?val - 1)) = ?val")
    case True
    with Cons.prems have res: "b' = snd (Atomics_compareExchange ?b2 ?val (?val - 1))"
      and l': "l' = l\<lparr>lockCount := 1\<rparr>"
      by (simp_all add: Let_def)
    from True have pos: "0 <s cell ?b1" and same: "cell ?b2 = cell ?b1"
      by (simp_all add: Atomics_compareExchange_def Atomics_load_def)
    from res same have b': "b' = ?b2\<lparr>cell := cell ?b1 - 1\<rparr>"
      by (simp add: Atomics_compareExchange_def Atomics_load_def)
    have "0 <s cell (at_load (r # rs) 0 b)
        \<and> cell (at_cas (r # rs) 0 b) = cell (at_load (r # rs) 0 b)
        \<and> b' = (at_cas (r # rs) 0 b)\<lparr>cell := cell (at_load (r # rs) 0 b) - 1\<rparr>"
      using pos same b' by (simp add: at_load_def at_cas_def)
    then show ?thesis using l' by (intro conjI exI[of _ 0]) simp_all
  next
    case False
    let ?b4 = "before_wait r ?b2"
    from False have b3: "(if 0 <s ?val then snd (Atomics_compareExchange ?b2 ?val (?val - 1)) else ?b2) = ?b2"
      by (rule acquire_loop_failed_pass)
    from Cons.prems False b3 have rec: "acquire_loop rs ?b4 l = Some (b', l')"
      by (simp add: Let_def split: option.splits)
    from Cons.IH[OF rec] obtain k where k: "k < length rs"
      "0 <s cell (at_load rs k ?b4)"
      "cell (at_cas rs k ?b4) = cell (at_load rs k ?b4)"
      "b' = (at_cas rs k ?b4)\<lparr>cell := cell (at_load rs k ?b4) - 1\<rparr>"
      and l': "l' = l\<lparr>lockCount := 1\<rparr>"
      by blast
    have o: "at_load (r # rs) (Suc k) b = at_load rs k ?b4"
            "at_cas (r # rs) (Suc k) b = at_cas rs k ?b4"
      by (simp_all add: at_load_def at_cas_def)
    have "Suc k < length (r # rs)
        \<and> 0 <s cell (at_load (r # rs) (Suc k) b)
        \<and> cell (at_cas (r # rs) (Suc k) b) = cell (at_load (r # rs) (Suc k) b)
        \<and> b' = (at_cas (r # rs) (Suc k) b)\<lparr>cell := cell (at_load (r # rs) (Suc k) b) - 1\<rparr>"
      using k unfolding o by simp
    then show ?thesis using l' by blast
  qed
qed

text \<open>
  Alone, a call that finds the cell positive returns at its first pass with the cell one
  lower, and a call that finds it zero or negative is suspended for good.
\<close>

lemma acquire_loop_quiet:
  "0 <s cell b \<Longrightarrow>
   acquire_loop (quiet # rs) b l = Some (b\<lparr>cell := cell b - 1\<rparr>, l\<lparr>lockCount := 1\<rparr>)"
  by (simp add: quiet_def Atomics_load_def Atomics_compareExchange_def)

lemma acquire_loop_quiet_blocked:
  "\<not> 0 <s cell b \<Longrightarrow> acquire_loop (quiet # rs) b l = None"
  by (simp add: quiet_def Atomics_load_def Atomics_compareExchange_def Atomics_wait_def)

text \<open>
  C3. (1) A call of \<open>acquire\<close> by an agent whose counter is positive returns at once,
  whatever the other agents do, with the counter one higher and the shared array as it
  was. (2) \<open>release\<close> with the counter above 1 only lowers the counter by one. (3)
  \<open>release\<close> with the counter at 1 adds 1 to the cell (the 32-bit addition of
  \<open>Atomics.add\<close>), wakes one suspended agent if there is one, and sets the counter to 0.
  (4) When a call of \<open>acquire\<close> with the counter at 0 returns, the counter is 1 and, in
  the pass \<open>k\<close> that returned, the value loaded was positive, the cell still held that
  value when the compare-and-swap ran, and the array returned is the array of that
  moment with the cell one lower; the passes before \<open>k\<close> left the array to the other
  agents.
\<close>

theorem Lock_acquire_release:
  "(0 < lockCount la \<longrightarrow> acquire rs b la = Some (b, la\<lparr>lockCount := lockCount la + 1\<rparr>))
   \<and> (1 < lockCount lb \<longrightarrow> release b lb = (b, lb\<lparr>lockCount := lockCount lb - 1\<rparr>))
   \<and> (lockCount lc = 1 \<longrightarrow>
        release b lc = (b\<lparr>cell := cell b + 1, waiters := waiters b - 1\<rparr>, lc\<lparr>lockCount := 0\<rparr>))
   \<and> (lockCount ld = 0 \<and> acquire rs b ld = Some (b', ld') \<longrightarrow>
        ld' = ld\<lparr>lockCount := 1\<rparr>
      \<and> (\<exists>k < length rs.
            0 <s cell (at_load rs k b)
          \<and> cell (at_cas rs k b) = cell (at_load rs k b)
          \<and> b' = (at_cas rs k b)\<lparr>cell := cell (at_cas rs k b) - 1\<rparr>
          \<and> sint (cell b') = sint (cell (at_cas rs k b)) - 1))"
proof (intro conjI impI)
  assume "0 < lockCount la"
  then show "acquire rs b la = Some (b, la\<lparr>lockCount := lockCount la + 1\<rparr>)"
    by (simp add: acquire_def)
next
  assume "1 < lockCount lb"
  then show "release b lb = (b, lb\<lparr>lockCount := lockCount lb - 1\<rparr>)"
    by (rule release_held_again)
next
  assume "lockCount lc = 1"
  then show "release b lc = (b\<lparr>cell := cell b + 1, waiters := waiters b - 1\<rparr>, lc\<lparr>lockCount := 0\<rparr>)"
    by (simp add: release_last)
next
  assume h: "lockCount ld = 0 \<and> acquire rs b ld = Some (b', ld')"
  then have loop: "acquire_loop rs b ld = Some (b', ld')"
    by (auto simp: acquire_def)
  from acquire_loop_Some[OF loop] show "ld' = ld\<lparr>lockCount := 1\<rparr>" by blast
next
  assume h: "lockCount ld = 0 \<and> acquire rs b ld = Some (b', ld')"
  then have loop: "acquire_loop rs b ld = Some (b', ld')"
    by (auto simp: acquire_def)
  from acquire_loop_Some[OF loop] obtain k where k: "k < length rs"
      "0 <s cell (at_load rs k b)"
      "cell (at_cas rs k b) = cell (at_load rs k b)"
      "b' = (at_cas rs k b)\<lparr>cell := cell (at_load rs k b) - 1\<rparr>"
    by blast
  from k(2,3) have pos: "0 <s cell (at_cas rs k b)" by simp
  from k(3,4) have b': "b' = (at_cas rs k b)\<lparr>cell := cell (at_cas rs k b) - 1\<rparr>" by simp
  then have "cell b' = cell (at_cas rs k b) - 1" by simp
  then have "sint (cell b') = sint (cell (at_cas rs k b)) - 1"
    using sint_pred[OF pos] by simp
  with k(1,2,3) b' show "\<exists>k < length rs.
            0 <s cell (at_load rs k b)
          \<and> cell (at_cas rs k b) = cell (at_load rs k b)
          \<and> b' = (at_cas rs k b)\<lparr>cell := cell (at_cas rs k b) - 1\<rparr>
          \<and> sint (cell b') = sint (cell (at_cas rs k b)) - 1"
    by blast
qed

text \<open>
  The theorem on the array with cell 1 and one suspended agent, with no interference:
  re-entry from counter 1, release from counter 2, release from counter 1, and a first
  acquire from counter 0.
\<close>

theorem Lock_acquire_release_witness:
  "acquire [quiet] \<lparr>cell = 1, waiters = 1\<rparr> \<lparr>lockCount = 1\<rparr>
     = Some (\<lparr>cell = 1, waiters = 1\<rparr>, \<lparr>lockCount = 2\<rparr>)
   \<and> release \<lparr>cell = 1, waiters = 1\<rparr> \<lparr>lockCount = 2\<rparr>
     = (\<lparr>cell = 1, waiters = 1\<rparr>, \<lparr>lockCount = 1\<rparr>)
   \<and> release \<lparr>cell = 1, waiters = 1\<rparr> \<lparr>lockCount = 1\<rparr>
     = (\<lparr>cell = 2, waiters = 0\<rparr>, \<lparr>lockCount = 0\<rparr>)
   \<and> acquire [quiet] \<lparr>cell = 1, waiters = 1\<rparr> \<lparr>lockCount = 0\<rparr>
     = Some (\<lparr>cell = 0, waiters = 1\<rparr>, \<lparr>lockCount = 1\<rparr>)
   \<and> at_cas [quiet] 0 \<lparr>cell = 1, waiters = 1\<rparr> = \<lparr>cell = 1, waiters = 1\<rparr>"
proof -
  let ?b = "\<lparr>cell = 1, waiters = 1\<rparr>"
  have ha: "0 < lockCount \<lparr>lockCount = 1\<rparr>" by simp
  have hb: "1 < lockCount \<lparr>lockCount = 2\<rparr>" by simp
  have hc: "lockCount \<lparr>lockCount = 1\<rparr> = 1" by simp
  have hd: "lockCount \<lparr>lockCount = 0\<rparr> = 0
            \<and> acquire [quiet] ?b \<lparr>lockCount = 0\<rparr> = Some (\<lparr>cell = 0, waiters = 1\<rparr>, \<lparr>lockCount = 1\<rparr>)"
    by (simp add: acquire_def quiet_def Atomics_load_def Atomics_compareExchange_def word_sless_alt)
  note inst = Lock_acquire_release[of "\<lparr>lockCount = 1\<rparr>" "[quiet]" ?b "\<lparr>lockCount = 2\<rparr>"
      "\<lparr>lockCount = 1\<rparr>" "\<lparr>lockCount = 0\<rparr>" "\<lparr>cell = 0, waiters = 1\<rparr>" "\<lparr>lockCount = 1\<rparr>"]
  have a: "acquire [quiet] ?b \<lparr>lockCount = 1\<rparr> = Some (?b, \<lparr>lockCount = 2\<rparr>)"
    using inst ha by simp
  have b: "release ?b \<lparr>lockCount = 2\<rparr> = (?b, \<lparr>lockCount = 1\<rparr>)"
    using inst hb by simp
  have c: "release ?b \<lparr>lockCount = 1\<rparr> = (\<lparr>cell = 2, waiters = 0\<rparr>, \<lparr>lockCount = 0\<rparr>)"
    using inst hc by simp
  have d: "at_cas [quiet] 0 ?b = ?b"
    by (simp add: at_cas_def at_load_def quiet_def)
  show ?thesis using a b c d hd by simp
qed

text \<open>
  C10. \<open>release\<close> returns a state and has no error result; with the counter at 0 it
  adds 1 to the cell, wakes one suspended agent if there is one, and leaves the counter
  at 0. On a new lock, whose cell the constructor sets to 1, such a release gives the
  cell 2; a first acquire then returns with the cell at 1, and a first acquire by a
  second agent returns as well, with the cell at 0: both agents hold the lock.
\<close>

theorem release_without_acquire:
  "release b \<lparr>lockCount = 0\<rparr>
     = (b\<lparr>cell := cell b + 1, waiters := waiters b - 1\<rparr>, \<lparr>lockCount = 0\<rparr>)
   \<and> Lock_new True None \<lparr>cell = 0, waiters = 0\<rparr>
     = (\<lparr>cell = 1, waiters = 0\<rparr>, \<lparr>lockCount = 0\<rparr>)
   \<and> release \<lparr>cell = 1, waiters = 0\<rparr> \<lparr>lockCount = 0\<rparr>
     = (\<lparr>cell = 2, waiters = 0\<rparr>, \<lparr>lockCount = 0\<rparr>)
   \<and> acquire [quiet] \<lparr>cell = 2, waiters = 0\<rparr> \<lparr>lockCount = 0\<rparr>
     = Some (\<lparr>cell = 1, waiters = 0\<rparr>, \<lparr>lockCount = 1\<rparr>)
   \<and> acquire [quiet] \<lparr>cell = 1, waiters = 0\<rparr> \<lparr>lockCount = 0\<rparr>
     = Some (\<lparr>cell = 0, waiters = 0\<rparr>, \<lparr>lockCount = 1\<rparr>)"
proof -
  have r: "release b \<lparr>lockCount = 0\<rparr>
        = (b\<lparr>cell := cell b + 1, waiters := waiters b - 1\<rparr>, \<lparr>lockCount = 0\<rparr>)" for b
    by (simp add: release_last)
  have n: "Lock_new True None \<lparr>cell = 0, waiters = 0\<rparr> = (\<lparr>cell = 1, waiters = 0\<rparr>, \<lparr>lockCount = 0\<rparr>)"
    by (simp add: Lock_new_def Atomics_store_def)
  have p2: "0 <s cell \<lparr>cell = 2, waiters = 0\<rparr>" and p1: "0 <s cell \<lparr>cell = 1, waiters = 0\<rparr>"
    by (simp_all add: word_sless_alt)
  have a1: "acquire [quiet] \<lparr>cell = 2, waiters = 0\<rparr> \<lparr>lockCount = 0\<rparr>
        = Some (\<lparr>cell = 1, waiters = 0\<rparr>, \<lparr>lockCount = 1\<rparr>)"
    using acquire_loop_quiet[OF p2, of "[]" "\<lparr>lockCount = 0\<rparr>"] by (simp add: acquire_def)
  have a2: "acquire [quiet] \<lparr>cell = 1, waiters = 0\<rparr> \<lparr>lockCount = 0\<rparr>
        = Some (\<lparr>cell = 0, waiters = 0\<rparr>, \<lparr>lockCount = 1\<rparr>)"
    using acquire_loop_quiet[OF p1, of "[]" "\<lparr>lockCount = 0\<rparr>"] by (simp add: acquire_def)
  show ?thesis using r[of b] r[of "\<lparr>cell = 1, waiters = 0\<rparr>"] n a1 a2 by simp
qed

subsection \<open>\<open>Signal\<close>\<close>

lemma resolve_wakes:
  "waiters (resolve b None) = 0" and "waiters (resolve b (Some n)) = waiters b - n"
  by (simp_all add: resolve_def Atomics_notify_def Atomics_store_def)

text \<open>
  C8. \<open>resolve\<close> stores 1 into the cell. \<open>isResolved\<close> only reads: it takes the array and
  returns a truth value, true exactly when the cell is 1. It is false on a signal whose
  constructor has just initialised the cell (to 0), true after \<open>resolve\<close>, and a second
  \<open>resolve\<close> leaves the cell at 1.
\<close>

theorem Signal_resolve_isResolved:
  "cell (resolve b n) = 1
   \<and> isResolved b = (cell b = 1)
   \<and> cell (Signal_new True ctx b) = 0
   \<and> cell (Signal_new False (Some Mode_new) b) = 0
   \<and> \<not> isResolved (Signal_new True ctx b)
   \<and> \<not> isResolved (Signal_new False (Some Mode_new) b)
   \<and> isResolved (resolve b n)
   \<and> cell (resolve (resolve b n) k) = 1
   \<and> isResolved (resolve (resolve b n) k)"
  by (simp add: resolve_def isResolved_def Signal_new_def
                Atomics_store_def Atomics_load_def Atomics_notify_def)

end
